theory Spec2Isabelle
  imports Complex_Main "HOL-Library.Code_Target_Numeral"
begin

section \<open>JavaScript strings\<close>

text \<open>
  A JavaScript string is modelled as a \<^typ>\<open>string\<close>; a \<^typ>\<open>char\<close> stands for a code
  unit below 256.  In that range \<^verbatim>\<open>String.prototype.trim\<close> and the regular expression
  class \<^verbatim>\<open>\s\<close> strip the same seven characters (TAB, LF, VT, FF, CR, SPACE, NBSP), and
  the line terminators that \<^verbatim>\<open>.\<close> refuses are LF and CR.
\<close>

definition js_whitespace :: "char \<Rightarrow> bool" where
  "js_whitespace c =
     (c \<in> set [CHR 0x09, CHR 0x0A, CHR 0x0B, CHR 0x0C, CHR 0x0D, CHR 0x20, CHR 0xA0])"

definition js_line_terminator :: "char \<Rightarrow> bool" where
  "js_line_terminator c = (c \<in> set [CHR 0x0A, CHR 0x0D])"

text \<open>\<^verbatim>\<open>s.trim()\<close>\<close>

definition js_trim :: "string \<Rightarrow> string" where
  "js_trim s = rev (dropWhile js_whitespace (rev (dropWhile js_whitespace s)))"

text \<open>\<^verbatim>\<open>s.split(sep)\<close> for a one-character separator: never the empty array.\<close>

fun js_split :: "char \<Rightarrow> string \<Rightarrow> string list" where
  "js_split sep [] = [[]]"
| "js_split sep (c # cs) =
     (if c = sep then [] # js_split sep cs
      else (case js_split sep cs of
              [] \<Rightarrow> [[c]]
            | l # ls \<Rightarrow> (c # l) # ls))"

text \<open>\<^verbatim>\<open>s.startsWith(p)\<close> with the remainder: the literal part of a pattern.\<close>

fun strip_prefix :: "string \<Rightarrow> string \<Rightarrow> string option" where
  "strip_prefix [] s = Some s"
| "strip_prefix (p # ps) [] = None"
| "strip_prefix (p # ps) (c # cs) = (if p = c then strip_prefix ps cs else None)"

section \<open>The three regular expressions\<close>

text \<open>
  The tail \<^verbatim>\<open>\s*=\s*(.+)$\<close> shared by both patterns of \<^verbatim>\<open>parseNpmrc\<close>, applied to the
  text after the literal \<^verbatim>\<open>registry\<close>.  The first \<^verbatim>\<open>\s*\<close> must swallow the whole run
  of whitespace, because \<^verbatim>\<open>=\<close> is no whitespace.  The second \<^verbatim>\<open>\s*\<close> is greedy: it
  takes the whole run too when something is left for \<^verbatim>\<open>(.+)\<close>, and gives one
  character back when the run reaches the end of the text.  \<^verbatim>\<open>(.+)$\<close> must reach the
  end without crossing a line terminator.  The result is capture group 2.
\<close>

definition match_assignment :: "string \<Rightarrow> string option" where
  "match_assignment r =
     (case dropWhile js_whitespace r of
        [] \<Rightarrow> None
      | c # r2 \<Rightarrow>
          if c \<noteq> CHR ''='' then None
          else (case dropWhile js_whitespace r2 of
                  [] \<Rightarrow>
                    (if r2 = [] then None
                     else if js_line_terminator (last r2) then None
                     else Some [last r2])
                | t # ts \<Rightarrow>
                    (if list_ex js_line_terminator (t # ts) then None
                     else Some (t # ts))))"

text \<open>
  \<^verbatim>\<open>cleanLine.match(/^(@[^:]+):registry\s*=\s*(.+)$/)\<close>: the groups \<^verbatim>\<open>scope\<close> and
  \<^verbatim>\<open>registry\<close>, or \<open>None\<close> for \<^verbatim>\<open>null\<close>.  Group 1 is the \<^verbatim>\<open>@\<close> with the whole run of
  characters up to the first colon: a shorter run would leave a non-colon where the
  pattern wants the colon.
\<close>

definition scopedMatch :: "string \<Rightarrow> (string \<times> string) option" where
  "scopedMatch s =
     (case s of
        [] \<Rightarrow> None
      | c # cs \<Rightarrow>
          if c \<noteq> CHR ''@'' then None
          else (let name = takeWhile (\<lambda>x. x \<noteq> CHR '':'') cs;
                    rest = dropWhile (\<lambda>x. x \<noteq> CHR '':'') cs
                in if name = [] then None
                   else (case strip_prefix '':registry'' rest of
                           None \<Rightarrow> None
                         | Some r \<Rightarrow>
                             (case match_assignment r of
                                None \<Rightarrow> None
                              | Some registry \<Rightarrow> Some (c # name, registry)))))"

text \<open>\<^verbatim>\<open>cleanLine.match(/^registry\s*=\s*(.+)$/)\<close>: group 1, or \<open>None\<close>.\<close>

definition defaultMatch :: "string \<Rightarrow> string option" where
  "defaultMatch s =
     (case strip_prefix ''registry'' s of
        None \<Rightarrow> None
      | Some r \<Rightarrow> match_assignment r)"

text \<open>
  \<^verbatim>\<open>pkg.match(/^(@[^/]+)\//)\<close>: group 1, or \<open>None\<close>.  The pattern is not anchored at the
  end, so whatever follows the first slash is ignored.
\<close>

definition scopeMatch :: "string \<Rightarrow> string option" where
  "scopeMatch pkg =
     (case pkg of
        [] \<Rightarrow> None
      | c # cs \<Rightarrow>
          if c \<noteq> CHR ''@'' then None
          else (let name = takeWhile (\<lambda>x. x \<noteq> CHR ''/'') cs;
                    rest = dropWhile (\<lambda>x. x \<noteq> CHR ''/'') cs
                in if name = [] \<or> rest = [] then None
                   else Some (c # name)))"

section \<open>The file system\<close>

text \<open>
  The files the program reads: a path that exists holds a text.
  \<^verbatim>\<open>fs.existsSync(p)\<close> is \<open>files p \<noteq> None\<close>, and \<^verbatim>\<open>fs.readFileSync(p, 'utf8')\<close> of an
  existing path is its text.
\<close>

type_synonym filesystem = "string \<rightharpoonup> string"

definition existsSync :: "filesystem \<Rightarrow> string \<Rightarrow> bool" where
  "existsSync files p = (files p \<noteq> None)"

section \<open>parseNpmrc\<close>

record npmrc =
  registryMap :: "string \<rightharpoonup> string"
  defaultRegistry :: string

definition initial_npmrc :: npmrc where
  "initial_npmrc =
     \<lparr> registryMap = Map.empty, defaultRegistry = ''https://registry.npmjs.org/'' \<rparr>"

text \<open>The body of the inner loop, for one line of a file.\<close>

definition npmrc_line :: "string \<Rightarrow> npmrc \<Rightarrow> npmrc" where
  "npmrc_line line st =
     (let cleanLine = hd (js_split CHR ''#'' (js_trim line))
      in if cleanLine = [] then st
         else (case scopedMatch cleanLine of
                 Some (scope, registry) \<Rightarrow>
                   st\<lparr> registryMap := (registryMap st)(scope \<mapsto> js_trim registry) \<rparr>
               | None \<Rightarrow>
                   (case defaultMatch cleanLine of
                      Some registry \<Rightarrow> st\<lparr> defaultRegistry := js_trim registry \<rparr>
                    | None \<Rightarrow> st)))"

text \<open>The body of the outer loop, for one path.\<close>

definition npmrc_file :: "filesystem \<Rightarrow> string \<Rightarrow> npmrc \<Rightarrow> npmrc" where
  "npmrc_file files filePath st =
     (case files filePath of
        None \<Rightarrow> st
      | Some text \<Rightarrow> fold npmrc_line (js_split CHR 0x0A text) st)"

text \<open>
  \<^verbatim>\<open>parseNpmrc(filePaths)\<close>.  \<^verbatim>\<open>filePaths.reverse()\<close> reverses the caller's array in
  place and returns it, so the function has two results: the array as the call leaves
  it, and the object it returns.
\<close>

definition parseNpmrc :: "filesystem \<Rightarrow> string list \<Rightarrow> string list \<times> npmrc" where
  "parseNpmrc files filePaths =
     (let reversed = rev filePaths
      in (reversed, fold (npmrc_file files) reversed initial_npmrc))"

section \<open>findNpmrcFiles\<close>

text \<open>
  What the function takes from Node: \<^verbatim>\<open>os.homedir()\<close>, \<^verbatim>\<open>path.join\<close> and
  \<^verbatim>\<open>path.dirname\<close>.
\<close>

record platform =
  homedir :: string
  path_join :: "string \<Rightarrow> string \<Rightarrow> string"
  path_dirname :: "string \<Rightarrow> string"

text \<open>
  \<^verbatim>\<open>findNpmrcFiles(lockfilePath)\<close>.  The argument is a string or \<^verbatim>\<open>null\<close>; the empty
  string is falsy as \<^verbatim>\<open>null\<close> is.  \<^verbatim>\<open>unshift\<close> puts the project-level path in front
  of the user-level one.
\<close>

definition findNpmrcFiles :: "platform \<Rightarrow> filesystem \<Rightarrow> string option \<Rightarrow> string list" where
  "findNpmrcFiles os files lockfilePath =
     (let locations = [path_join os (homedir os) ''.npmrc''];
          locations =
            (case lockfilePath of
               None \<Rightarrow> locations
             | Some p \<Rightarrow>
                 if p = [] then locations
                 else (let projectRoot = path_dirname os p
                       in path_join os projectRoot ''.npmrc'' # locations))
      in filter (existsSync files) locations)"

section \<open>The values js-yaml loads\<close>

text \<open>
  \<^verbatim>\<open>yaml.load\<close> returns \<^verbatim>\<open>undefined\<close> for an empty document, and otherwise a scalar, an
  array, or an object whose own properties are listed here in the order of their
  creation, which is the order of the keys in the document.  js-yaml refuses a
  duplicated key.  The other objects it can build (a \<^verbatim>\<open>Date\<close>, say) have no own
  enumerable property and behave here as the empty object does.
\<close>

datatype js_number = Finite rat | NaN | PosInfinity | NegInfinity

datatype js_value =
    JUndefined
  | JNull
  | JBoolean bool
  | JNumber js_number
  | JString string
  | JArray "js_value list"
  | JObject "(string \<times> js_value) list"

text \<open>Truthiness, as \<^verbatim>\<open>||\<close> and \<^verbatim>\<open>!\<close> test it.\<close>

fun truthy :: "js_value \<Rightarrow> bool" where
  "truthy JUndefined = False"
| "truthy JNull = False"
| "truthy (JBoolean b) = b"
| "truthy (JNumber (Finite q)) = (q \<noteq> 0)"
| "truthy (JNumber NaN) = False"
| "truthy (JNumber PosInfinity) = True"
| "truthy (JNumber NegInfinity) = True"
| "truthy (JString s) = (s \<noteq> [])"
| "truthy (JArray xs) = True"
| "truthy (JObject props) = True"

text \<open>
  \<^verbatim>\<open>lockData?.packages\<close>: \<^verbatim>\<open>undefined\<close> on \<^verbatim>\<open>undefined\<close> and \<^verbatim>\<open>null\<close>, the own property
  of an object, and \<^verbatim>\<open>undefined\<close> on everything else, since no prototype of a scalar
  or of an array has a property of that name.
\<close>

fun optional_packages :: "js_value \<Rightarrow> js_value" where
  "optional_packages (JObject props) =
     (case map_of props ''packages'' of None \<Rightarrow> JUndefined | Some v \<Rightarrow> v)"
| "optional_packages v = JUndefined"

text \<open>\<^verbatim>\<open>v || {}\<close>\<close>

definition or_empty_object :: "js_value \<Rightarrow> js_value" where
  "or_empty_object v = (if truthy v then v else JObject [])"

subsection \<open>Object.keys\<close>

definition digit_char :: "nat \<Rightarrow> char" where
  "digit_char d = ''0123456789'' ! (d mod 10)"

fun decimal :: "nat \<Rightarrow> string" where
  "decimal n = (if n < 10 then [digit_char n] else decimal (n div 10) @ [digit_char n])"

declare decimal.simps [simp del]

definition is_digit :: "char \<Rightarrow> bool" where
  "is_digit c = (c \<in> set ''0123456789'')"

definition index_value :: "string \<Rightarrow> nat" where
  "index_value s = fold (\<lambda>c n. 10 * n + (of_char c - 48)) s 0"

text \<open>
  An array index is the canonical decimal numeral of a number below \<open>2\<^sup>3\<^sup>2 - 1\<close>.  The
  own keys of an object come with the array indices first, in ascending order, and
  then the other strings in the order of their creation.
\<close>

definition is_array_index :: "string \<Rightarrow> bool" where
  "is_array_index s =
     (s \<noteq> [] \<and> list_all is_digit s \<and> (s = ''0'' \<or> hd s \<noteq> CHR ''0'') \<and>
      index_value s < 4294967295)"

definition own_keys :: "(string \<times> 'a) list \<Rightarrow> string list" where
  "own_keys props =
     (let names = map fst props
      in sort_key index_value (filter is_array_index names) @
         filter (\<lambda>k. \<not> is_array_index k) names)"

text \<open>\<^verbatim>\<open>Object.keys(v)\<close>; \<open>Inl\<close> is the message of the \<^verbatim>\<open>TypeError\<close> it throws.\<close>

fun object_keys :: "js_value \<Rightarrow> string + string list" where
  "object_keys JUndefined = Inl ''Cannot convert undefined or null to object''"
| "object_keys JNull = Inl ''Cannot convert undefined or null to object''"
| "object_keys (JBoolean b) = Inr []"
| "object_keys (JNumber n) = Inr []"
| "object_keys (JString s) = Inr (map decimal [0..<length s])"
| "object_keys (JArray xs) = Inr (map decimal [0..<length xs])"
| "object_keys (JObject props) = Inr (own_keys props)"

section \<open>extractScopes\<close>

text \<open>
  The two errors the lockfile functions throw:
  \<^verbatim>\<open>new Error(`Lockfile not found: ${lockPath}`)\<close> and
  \<^verbatim>\<open>new Error(`Failed to parse lockfile: ${error.message}`)\<close>, each with the text it
  interpolates.
\<close>

datatype error = LockfileNotFound string | LockfileParseError string

text \<open>A \<^verbatim>\<open>Set\<close> of strings: its elements in insertion order, each once.\<close>

definition set_add :: "string \<Rightarrow> string list \<Rightarrow> string list" where
  "set_add x s = (if x \<in> set s then s else s @ [x])"

definition scopes_step :: "string \<Rightarrow> string list \<Rightarrow> string list" where
  "scopes_step pkg scopes =
     (case scopeMatch pkg of
        Some m \<Rightarrow> set_add m scopes
      | None \<Rightarrow> scopes)"

text \<open>
  The body of the \<^verbatim>\<open>try\<close> block; \<open>Inl\<close> is the message of what it throws.
  \<open>yaml_load\<close> stands for \<^verbatim>\<open>yaml.load\<close> of js-yaml, with \<open>Inl\<close> the message of its
  exception.
\<close>

definition scopes_try :: "(string \<Rightarrow> string + js_value) \<Rightarrow> string \<Rightarrow> string + string list" where
  "scopes_try yaml_load text =
     (case yaml_load text of
        Inl message \<Rightarrow> Inl message
      | Inr lockData \<Rightarrow>
          (let packages = or_empty_object (optional_packages lockData)
           in case object_keys packages of
                Inl message \<Rightarrow> Inl message
              | Inr keys \<Rightarrow> Inr (fold scopes_step keys [])))"

definition extractScopes ::
  "(string \<Rightarrow> string + js_value) \<Rightarrow> filesystem \<Rightarrow> string \<Rightarrow> error + string list" where
  "extractScopes yaml_load files lockPath =
     (case files lockPath of
        None \<Rightarrow> Inl (LockfileNotFound lockPath)
      | Some text \<Rightarrow>
          (case scopes_try yaml_load text of
             Inl message \<Rightarrow> Inl (LockfileParseError message)
           | Inr scopes \<Rightarrow> Inr scopes))"

section \<open>extractPackagesByRegistry\<close>

text \<open>
  \<^verbatim>\<open>packagesByRegistry\<close> is a plain object: the map holds its own properties, and a
  name it does not hold is still found when \<^verbatim>\<open>Object.prototype\<close> has it.
\<close>

definition object_prototype_names :: "string list" where
  "object_prototype_names =
     [''constructor'', ''__defineGetter__'', ''__defineSetter__'', ''hasOwnProperty'',
      ''__lookupGetter__'', ''__lookupSetter__'', ''isPrototypeOf'',
      ''propertyIsEnumerable'', ''toString'', ''valueOf'', ''__proto__'',
      ''toLocaleString'']"

datatype 'a property = Own 'a | Inherited | Absent

definition get_property :: "(string \<rightharpoonup> 'a) \<Rightarrow> string \<Rightarrow> 'a property" where
  "get_property obj name =
     (case obj name of
        Some v \<Rightarrow> Own v
      | None \<Rightarrow> if name \<in> set object_prototype_names then Inherited else Absent)"

text \<open>
  The body of the loop for one package key; \<open>regMap\<close> and \<open>defaultReg\<close> are the
  parameters \<^verbatim>\<open>registryMap\<close> and \<^verbatim>\<open>defaultRegistry\<close>.  An inherited property is truthy, so no
  list is created for it, and it has no \<^verbatim>\<open>push\<close>: the call throws a \<^verbatim>\<open>TypeError\<close>.
\<close>

definition packages_step ::
  "(string \<rightharpoonup> string) \<Rightarrow> string \<Rightarrow> string \<Rightarrow> (string \<rightharpoonup> string list) \<Rightarrow>
   string + (string \<rightharpoonup> string list)" where
  "packages_step regMap defaultReg pkg packagesByRegistry =
     (case scopeMatch pkg of
        None \<Rightarrow> Inr packagesByRegistry
      | Some scope \<Rightarrow>
          (case regMap scope of
             None \<Rightarrow> Inr packagesByRegistry
           | Some registry \<Rightarrow>
               if registry \<noteq> [] \<and> registry \<noteq> defaultReg then
                 (let created =
                        (case get_property packagesByRegistry registry of
                           Absent \<Rightarrow> packagesByRegistry(registry \<mapsto> [])
                         | Own l \<Rightarrow> packagesByRegistry
                         | Inherited \<Rightarrow> packagesByRegistry)
                  in case get_property created registry of
                       Own l \<Rightarrow> Inr (created(registry \<mapsto> l @ [pkg]))
                     | Inherited \<Rightarrow>
                         Inl ''packagesByRegistry[registry].push is not a function''
                     | Absent \<Rightarrow>
                         Inl ''Cannot read properties of undefined (reading 'push')'')
               else Inr packagesByRegistry))"

fun packages_loop ::
  "(string \<rightharpoonup> string) \<Rightarrow> string \<Rightarrow> string list \<Rightarrow> (string \<rightharpoonup> string list) \<Rightarrow>
   string + (string \<rightharpoonup> string list)" where
  "packages_loop regMap defaultReg [] acc = Inr acc"
| "packages_loop regMap defaultReg (pkg # pkgs) acc =
     (case packages_step regMap defaultReg pkg acc of
        Inl message \<Rightarrow> Inl message
      | Inr acc' \<Rightarrow> packages_loop regMap defaultReg pkgs acc')"

definition packages_try ::
  "(string \<Rightarrow> string + js_value) \<Rightarrow> string \<Rightarrow> (string \<rightharpoonup> string) \<Rightarrow> string \<Rightarrow>
   string + (string \<rightharpoonup> string list)" where
  "packages_try yaml_load text regMap defaultReg =
     (case yaml_load text of
        Inl message \<Rightarrow> Inl message
      | Inr lockData \<Rightarrow>
          (let packages = or_empty_object (optional_packages lockData)
           in case object_keys packages of
                Inl message \<Rightarrow> Inl message
              | Inr keys \<Rightarrow> packages_loop regMap defaultReg keys Map.empty))"

definition extractPackagesByRegistry ::
  "(string \<Rightarrow> string + js_value) \<Rightarrow> filesystem \<Rightarrow> string \<Rightarrow> (string \<rightharpoonup> string) \<Rightarrow> string \<Rightarrow>
   error + (string \<rightharpoonup> string list)" where
  "extractPackagesByRegistry yaml_load files lockPath regMap defaultReg =
     (case files lockPath of
        None \<Rightarrow> Inl (LockfileNotFound lockPath)
      | Some text \<Rightarrow>
          (case packages_try yaml_load text regMap defaultReg of
             Inl message \<Rightarrow> Inl (LockfileParseError message)
           | Inr packagesByRegistry \<Rightarrow> Inr packagesByRegistry))"

section \<open>What a configuration file declares\<close>

text \<open>
  The claims speak of the keys a layer declares and of their values.  A line declares
  a scope when its clean text matches the scoped pattern, and a default registry when
  it matches the other pattern; the value is the trimmed capture.  \<open>line_values\<close>
  lists the values that a file's lines declare for one scope, in the order of the
  lines, and \<open>layer_value\<close> is the last of them.
\<close>

definition cleanLine :: "string \<Rightarrow> string" where
  "cleanLine line = hd (js_split CHR ''#'' (js_trim line))"

definition line_values :: "string list \<Rightarrow> string \<Rightarrow> string list" where
  "line_values lines scope =
     map (\<lambda>(s, r). js_trim r)
       (filter (\<lambda>(s, r). s = scope)
          (List.map_filter (\<lambda>line. scopedMatch (cleanLine line)) lines))"

definition layer_value :: "string \<Rightarrow> string \<Rightarrow> string option" where
  "layer_value text scope =
     (let values = line_values (js_split CHR 0x0A text) scope
      in if values = [] then None else Some (last values))"

definition line_defaults :: "string list \<Rightarrow> string list" where
  "line_defaults lines =
     map js_trim (List.map_filter (\<lambda>line. defaultMatch (cleanLine line)) lines)"

definition layer_defaults :: "filesystem \<Rightarrow> string \<Rightarrow> string list" where
  "layer_defaults files filePath =
     (case files filePath of
        None \<Rightarrow> []
      | Some text \<Rightarrow> line_defaults (js_split CHR 0x0A text))"

definition last_or :: "'a \<Rightarrow> 'a list \<Rightarrow> 'a" where
  "last_or d xs = (if xs = [] then d else last xs)"

definition scope_key :: "string \<Rightarrow> bool" where
  "scope_key k = (hd k = CHR ''@'' \<and> 2 \<le> length k \<and> CHR '':'' \<notin> set k)"

section \<open>The package keys of a lockfile\<close>

text \<open>
  \<open>document_keys\<close> lists the keys of the \<^verbatim>\<open>packages\<close> mapping in the order of the
  document, and is empty when the document has no such mapping.  A package key is
  \<open>classified\<close> under the registry \<open>R\<close> when it has a scope, the mapping sends the scope
  to \<open>R\<close>, and \<open>R\<close> is neither empty nor the default registry.
\<close>

definition document_keys :: "js_value \<Rightarrow> string list" where
  "document_keys lockData =
     (case optional_packages lockData of
        JObject pkgs \<Rightarrow> map fst pkgs
      | _ \<Rightarrow> [])"

definition classified :: "(string \<rightharpoonup> string) \<Rightarrow> string \<Rightarrow> string \<Rightarrow> string \<Rightarrow> bool" where
  "classified regMap defaultReg R pkg =
     (case scopeMatch pkg of
        None \<Rightarrow> False
      | Some scope \<Rightarrow> regMap scope = Some R \<and> R \<noteq> [] \<and> R \<noteq> defaultReg)"

definition scoped :: "string \<Rightarrow> bool" where
  "scoped pkg = (scopeMatch pkg \<noteq> None)"

text \<open>
  Some package key is classified under a registry whose name \<^verbatim>\<open>Object.prototype\<close>
  has.
\<close>

definition pushes_to_prototype :: "(string \<rightharpoonup> string) \<Rightarrow> string \<Rightarrow> string list \<Rightarrow> bool" where
  "pushes_to_prototype regMap defaultReg keys =
     list_ex (\<lambda>pkg. list_ex (\<lambda>R. classified regMap defaultReg R pkg) object_prototype_names) keys"

section \<open>Example inputs\<close>

text \<open>
  A platform whose \<open>path_join\<close> and \<open>path_dirname\<close> give what Node gives on the
  absolute, normalised paths used below.
\<close>

definition example_platform :: platform where
  "example_platform =
     \<lparr> homedir = ''/home/u'',
       path_join = (\<lambda>a b. a @ ''/'' @ b),
       path_dirname = (\<lambda>p. rev (tl (dropWhile (\<lambda>c. c \<noteq> CHR ''/'') (rev p)))) \<rparr>"

definition example_lockfile :: string where
  "example_lockfile = ''packages: {'@foo/bar': {}, baz: {}, '@foo/qux': {}}''"

definition example_document :: js_value where
  "example_document =
     JObject [(''packages'',
       JObject [(''@foo/bar'', JObject []), (''baz'', JObject []), (''@foo/qux'', JObject [])])]"

definition example_list_lockfile :: string where
  "example_list_lockfile = ''packages: ['@foo/bar', baz]''"

definition example_list_document :: js_value where
  "example_list_document =
     JObject [(''packages'', JArray [JString ''@foo/bar'', JString ''baz''])]"

text \<open>What \<^verbatim>\<open>yaml.load\<close> does on the example texts; the last one is cut short.\<close>

definition example_yaml_load :: "string \<Rightarrow> string + js_value" where
  "example_yaml_load text =
     (if text = example_lockfile then Inr example_document
      else if text = example_list_lockfile then Inr example_list_document
      else Inl ''unexpected end of the stream within a flow collection'')"

definition example_files :: filesystem where
  "example_files =
     [''/home/u/.npmrc'' \<mapsto> ''registry = R0 # the mirror'' @ [CHR 0x0A] @ ''@a:registry = U1'' @
        [CHR 0x0A] @ ''@c:registry = U3'',
      ''/work/app/.npmrc'' \<mapsto> ''@a:registry = P1'' @ [CHR 0x0A] @ ''@b:registry=P2'',
      ''/work/app/pnpm-lock.yaml'' \<mapsto> example_lockfile,
      ''/work/lib/pnpm-lock.yaml'' \<mapsto> example_list_lockfile,
      ''/work/bad/pnpm-lock.yaml'' \<mapsto> ''packages: ['']"

text \<open>
  A second file system: a project whose lockfile has the packages \<^verbatim>\<open>@a/x\<close> and \<^verbatim>\<open>@b/y\<close>,
  a user-level file that sets the default registry, and a project-level file that
  maps both scopes.
\<close>

definition scenario_lockfile :: string where
  "scenario_lockfile = ''packages: {'@a/x': {}, '@b/y': {}}''"

definition scenario_yaml_load :: "string \<Rightarrow> string + js_value" where
  "scenario_yaml_load text =
     (if text = scenario_lockfile
      then Inr (JObject [(''packages'', JObject [(''@a/x'', JObject []), (''@b/y'', JObject [])])])
      else Inl ''unexpected end of the stream within a flow collection'')"

definition scenario_files :: filesystem where
  "scenario_files =
     [''/home/u/.npmrc'' \<mapsto> ''registry = R0'',
      ''/work/app/.npmrc'' \<mapsto> ''@a:registry = R1'' @ [CHR 0x0A] @ ''@b:registry = R0'',
      ''/work/app/pnpm-lock.yaml'' \<mapsto> scenario_lockfile]"

section \<open>The patterns as sets of strings\<close>

text \<open>
  Each matcher is related to its pattern read as a concatenation: a match is a way to
  cut the text into the pieces of the pattern.  For the tail \<^verbatim>\<open>\s*=\s*(.+)$\<close> every cut
  gives the same trimmed capture, which is all that \<^verbatim>\<open>parseNpmrc\<close> uses.
\<close>

lemma strip_prefix_iff: "strip_prefix p s = Some r \<longleftrightarrow> s = p @ r"
  by (induction p s rule: strip_prefix.induct) auto

lemma not_whitespace_equals: "\<not> js_whitespace CHR ''=''"
  by (simp add: js_whitespace_def)

lemma line_terminator_whitespace: "js_line_terminator c \<Longrightarrow> js_whitespace c"
  by (auto simp: js_line_terminator_def js_whitespace_def)

lemma dropWhile_all: "list_all P xs \<Longrightarrow> dropWhile P (xs @ ys) = dropWhile P ys"
  by (induction xs) auto

lemma js_trim_dropWhile: "js_trim (dropWhile js_whitespace s) = js_trim s"
  by (simp add: js_trim_def)

lemma dropWhile_whitespace: "list_all P s \<Longrightarrow> dropWhile P s = []"
  by (induction s) auto

lemma js_trim_whitespace: "list_all js_whitespace s \<Longrightarrow> js_trim s = []"
  by (simp add: js_trim_def dropWhile_whitespace)

lemma match_assignment_sound:
  assumes "match_assignment r = Some g"
  shows "\<exists>w1 w2. r = w1 @ CHR ''='' # w2 @ g \<and> list_all js_whitespace w1 \<and>
           list_all js_whitespace w2 \<and> g \<noteq> [] \<and> \<not> list_ex js_line_terminator g"
proof -
  let ?w1 = "takeWhile js_whitespace r"
  from assms obtain r2 where r1: "dropWhile js_whitespace r = CHR ''='' # r2"
    by (auto simp: match_assignment_def split: list.splits if_splits)
  then have r: "r = ?w1 @ CHR ''='' # r2"
    using takeWhile_dropWhile_id [of js_whitespace r] by simp
  have w1: "list_all js_whitespace ?w1"
    by (auto simp: list_all_iff dest: set_takeWhileD)
  show ?thesis
  proof (cases "dropWhile js_whitespace r2")
    case Nil
    with assms r1 have ne: "r2 \<noteq> []" and g: "g = [last r2]"
      and nt: "\<not> js_line_terminator (last r2)"
      by (auto simp: match_assignment_def split: if_splits)
    from Nil have "list_all js_whitespace r2"
      by (simp add: list_all_iff)
    then have "list_all js_whitespace (butlast r2)"
      by (auto simp: list_all_iff dest: in_set_butlastD)
    moreover from ne g have "r2 = butlast r2 @ g" by simp
    ultimately show ?thesis
      using r w1 g nt by (intro exI [of _ ?w1] exI [of _ "butlast r2"]) auto
  next
    case (Cons t ts)
    with assms r1 have g: "g = t # ts" and nt: "\<not> list_ex js_line_terminator (t # ts)"
      by (auto simp: match_assignment_def split: if_splits)
    let ?w2 = "takeWhile js_whitespace r2"
    have "r2 = ?w2 @ g"
      using takeWhile_dropWhile_id [of js_whitespace r2] Cons g by simp
    moreover have "list_all js_whitespace ?w2"
      by (auto simp: list_all_iff dest: set_takeWhileD)
    ultimately show ?thesis
      using r w1 g nt by (intro exI [of _ ?w1] exI [of _ ?w2]) auto
  qed
qed

lemma match_assignment_complete:
  assumes "r = w1 @ CHR ''='' # w2 @ g"
    and "list_all js_whitespace w1" and "list_all js_whitespace w2"
    and "g \<noteq> []" and "\<not> list_ex js_line_terminator g"
  shows "\<exists>g'. match_assignment r = Some g' \<and> js_trim g' = js_trim g"
proof -
  have r1: "dropWhile js_whitespace r = CHR ''='' # w2 @ g"
    using assms(1,2) by (simp add: dropWhile_all not_whitespace_equals)
  have r2: "dropWhile js_whitespace (w2 @ g) = dropWhile js_whitespace g"
    using assms(3) by (rule dropWhile_all)
  show ?thesis
  proof (cases "dropWhile js_whitespace g")
    case Nil
    then have ws: "list_all js_whitespace g"
      by (simp add: list_all_iff)
    from assms(4,5) have "\<not> js_line_terminator (last (w2 @ g))"
      by (auto simp: list_ex_iff)
    then have "match_assignment r = Some [last (w2 @ g)]"
      using assms(4) by (simp add: match_assignment_def r1 r2 Nil)
    moreover from assms(4) ws have "js_whitespace (last (w2 @ g))"
      by (auto simp: list_all_iff)
    then have "js_trim [last (w2 @ g)] = []"
      by (simp add: js_trim_def)
    ultimately show ?thesis
      using ws by (simp add: js_trim_whitespace)
  next
    case (Cons t ts)
    have "set (t # ts) \<subseteq> set g"
      using set_dropWhileD [of _ js_whitespace g] Cons by auto
    with assms(5) have "\<not> list_ex js_line_terminator (t # ts)"
      by (auto simp: list_ex_iff)
    then have "match_assignment r = Some (dropWhile js_whitespace g)"
      by (simp add: match_assignment_def r1 r2 Cons)
    then show ?thesis
      by (simp add: js_trim_dropWhile)
  qed
qed

lemma scopedMatch_iff:
  "scopedMatch s = Some (k, g) \<longleftrightarrow>
     (\<exists>name r. s = CHR ''@'' # name @ '':registry'' @ r \<and> name \<noteq> [] \<and>
        CHR '':'' \<notin> set name \<and> k = CHR ''@'' # name \<and> match_assignment r = Some g)"
proof
  assume m: "scopedMatch s = Some (k, g)"
  then obtain c cs where s: "s = c # cs"
    by (cases s) (auto simp: scopedMatch_def)
  let ?name = "takeWhile (\<lambda>x. x \<noteq> CHR '':'') cs"
  let ?rest = "dropWhile (\<lambda>x. x \<noteq> CHR '':'') cs"
  from m s obtain r where c: "c = CHR ''@''" and name: "?name \<noteq> []"
    and rest: "strip_prefix '':registry'' ?rest = Some r" and k: "k = c # ?name"
    and g: "match_assignment r = Some g"
    by (auto simp: scopedMatch_def Let_def split: if_splits option.splits)
  from rest have "?rest = '':registry'' @ r"
    by (simp only: strip_prefix_iff)
  then have "cs = ?name @ '':registry'' @ r"
    using takeWhile_dropWhile_id [of "\<lambda>x. x \<noteq> CHR '':''" cs] by simp
  moreover have "CHR '':'' \<notin> set ?name"
    by (auto dest: set_takeWhileD)
  ultimately show "\<exists>name r. s = CHR ''@'' # name @ '':registry'' @ r \<and> name \<noteq> [] \<and>
      CHR '':'' \<notin> set name \<and> k = CHR ''@'' # name \<and> match_assignment r = Some g"
    using s c name k g by blast
next
  assume "\<exists>name r. s = CHR ''@'' # name @ '':registry'' @ r \<and> name \<noteq> [] \<and>
      CHR '':'' \<notin> set name \<and> k = CHR ''@'' # name \<and> match_assignment r = Some g"
  then obtain name r where s: "s = CHR ''@'' # name @ '':registry'' @ r"
    and name: "name \<noteq> []" "CHR '':'' \<notin> set name" and k: "k = CHR ''@'' # name"
    and g: "match_assignment r = Some g"
    by blast
  from name(2) have all: "\<And>x. x \<in> set name \<Longrightarrow> x \<noteq> CHR '':''"
    by auto
  have "takeWhile (\<lambda>x. x \<noteq> CHR '':'') (name @ '':registry'' @ r) = name"
    using all by (simp add: takeWhile_append2)
  moreover have "dropWhile (\<lambda>x. x \<noteq> CHR '':'') (name @ '':registry'' @ r) = '':registry'' @ r"
    using all by (simp add: dropWhile_append2)
  moreover have "strip_prefix '':registry'' ('':registry'' @ r) = Some r"
    by (simp only: strip_prefix_iff)
  ultimately show "scopedMatch s = Some (k, g)"
    using s name(1) k g by (simp add: scopedMatch_def)
qed

lemma defaultMatch_iff:
  "defaultMatch s = Some g \<longleftrightarrow> (\<exists>r. s = ''registry'' @ r \<and> match_assignment r = Some g)"
proof
  assume "defaultMatch s = Some g"
  then obtain r where "strip_prefix ''registry'' s = Some r" and "match_assignment r = Some g"
    by (auto simp: defaultMatch_def split: option.splits)
  then show "\<exists>r. s = ''registry'' @ r \<and> match_assignment r = Some g"
    by (auto simp only: strip_prefix_iff)
next
  assume "\<exists>r. s = ''registry'' @ r \<and> match_assignment r = Some g"
  then obtain r where s: "s = ''registry'' @ r" and g: "match_assignment r = Some g"
    by blast
  have "strip_prefix ''registry'' (''registry'' @ r) = Some r"
    by (simp only: strip_prefix_iff)
  with s g show "defaultMatch s = Some g"
    by (simp add: defaultMatch_def)
qed

section \<open>Properties of parseNpmrc\<close>

lemma scopedMatch_Nil: "scopedMatch [] = None"
  by (simp add: scopedMatch_def)

lemma defaultMatch_Nil: "defaultMatch [] = None"
  by (simp add: defaultMatch_def)

lemma scopedMatch_key:
  assumes "scopedMatch s = Some (k, r)"
  shows "\<exists>name. k = CHR ''@'' # name \<and> name \<noteq> [] \<and> CHR '':'' \<notin> set name"
proof (cases s)
  case Nil
  with assms show ?thesis by (simp add: scopedMatch_def)
next
  case (Cons c cs)
  with assms have "c = CHR ''@''" and "takeWhile (\<lambda>x. x \<noteq> CHR '':'') cs \<noteq> []"
    and "k = c # takeWhile (\<lambda>x. x \<noteq> CHR '':'') cs"
    by (auto simp: scopedMatch_def Let_def split: if_splits option.splits)
  moreover have "CHR '':'' \<notin> set (takeWhile (\<lambda>x. x \<noteq> CHR '':'') cs)"
    by (auto dest: set_takeWhileD)
  ultimately show ?thesis by blast
qed

lemma scoped_excludes_default:
  "scopedMatch s = Some m \<Longrightarrow> defaultMatch s = None"
  by (cases s) (auto simp: scopedMatch_def defaultMatch_def split: if_splits)

lemma npmrc_line_registryMap:
  "registryMap (npmrc_line line st) =
     (case scopedMatch (cleanLine line) of
        None \<Rightarrow> registryMap st
      | Some (s, r) \<Rightarrow> (registryMap st)(s \<mapsto> js_trim r))"
  by (auto simp: npmrc_line_def cleanLine_def Let_def scopedMatch_Nil split: option.splits)

lemma npmrc_line_defaultRegistry:
  "defaultRegistry (npmrc_line line st) =
     (case defaultMatch (cleanLine line) of
        None \<Rightarrow> defaultRegistry st
      | Some r \<Rightarrow> js_trim r)"
  by (auto simp: npmrc_line_def cleanLine_def Let_def defaultMatch_Nil
      dest: scoped_excludes_default split: option.splits)

lemma line_values_Cons:
  "line_values (line # lines) scope =
     (case scopedMatch (cleanLine line) of
        None \<Rightarrow> line_values lines scope
      | Some (s, r) \<Rightarrow>
          (if s = scope then js_trim r # line_values lines scope
           else line_values lines scope))"
  by (auto simp: line_values_def List.map_filter_simps split: option.splits)

lemma line_values_Nil: "line_values [] scope = []"
  by (simp add: line_values_def List.map_filter_simps)

lemma fold_npmrc_line_registryMap:
  "registryMap (fold npmrc_line lines st) scope =
     (if line_values lines scope = [] then registryMap st scope
      else Some (last (line_values lines scope)))"
proof (induction lines arbitrary: st)
  case Nil
  show ?case by (simp add: line_values_Nil)
next
  case (Cons line lines)
  show ?case
    by (simp add: Cons.IH npmrc_line_registryMap line_values_Cons split: option.splits)
qed

lemma line_defaults_Cons:
  "line_defaults (line # lines) =
     (case defaultMatch (cleanLine line) of
        None \<Rightarrow> line_defaults lines
      | Some r \<Rightarrow> js_trim r # line_defaults lines)"
  by (auto simp: line_defaults_def List.map_filter_simps split: option.splits)

lemma line_defaults_Nil: "line_defaults [] = []"
  by (simp add: line_defaults_def List.map_filter_simps)

lemma fold_npmrc_line_defaultRegistry:
  "defaultRegistry (fold npmrc_line lines st) =
     (if line_defaults lines = [] then defaultRegistry st else last (line_defaults lines))"
proof (induction lines arbitrary: st)
  case Nil
  show ?case by (simp add: line_defaults_Nil)
next
  case (Cons line lines)
  show ?case
    by (simp add: Cons.IH npmrc_line_defaultRegistry line_defaults_Cons split: option.splits)
qed

lemma last_or_append: "last_or d (xs @ ys) = last_or (last_or d xs) ys"
  by (simp add: last_or_def)

lemma npmrc_file_defaultRegistry:
  "defaultRegistry (npmrc_file files p st) =
     last_or (defaultRegistry st) (layer_defaults files p)"
  by (simp add: npmrc_file_def layer_defaults_def fold_npmrc_line_defaultRegistry
      last_or_def split: option.splits)

lemma fold_npmrc_file_defaultRegistry:
  "defaultRegistry (fold (npmrc_file files) ps st) =
     last_or (defaultRegistry st) (concat (map (layer_defaults files) ps))"
proof (induction ps arbitrary: st)
  case Nil
  show ?case by (simp add: last_or_def)
next
  case (Cons p ps)
  show ?case
    by (simp only: fold_simps Cons.IH npmrc_file_defaultRegistry list.map concat.simps
        last_or_append)
qed

lemma scopedMatch_scope_key: "scopedMatch s = Some (k, r) \<Longrightarrow> scope_key k"
  by (drule scopedMatch_key) (auto simp: scope_key_def Suc_le_eq)

lemma npmrc_line_keys:
  assumes "registryMap (npmrc_line line st) k = Some v"
  shows "registryMap st k \<noteq> None \<or> scope_key k"
  using assms
  by (auto simp: npmrc_line_registryMap split: option.splits if_splits
      dest: scopedMatch_scope_key)

lemma fold_npmrc_line_keys:
  "registryMap (fold npmrc_line lines st) k = Some v \<Longrightarrow>
   registryMap st k \<noteq> None \<or> scope_key k"
proof (induction lines arbitrary: st v)
  case Nil
  then show ?case by simp
next
  case (Cons line lines)
  from Cons.IH [of "npmrc_line line st" v] Cons.prems
  have "registryMap (npmrc_line line st) k \<noteq> None \<or> scope_key k" by simp
  then show ?case using npmrc_line_keys by blast
qed

lemma npmrc_file_keys:
  "registryMap (npmrc_file files p st) k = Some v \<Longrightarrow>
   registryMap st k \<noteq> None \<or> scope_key k"
  by (auto simp: npmrc_file_def split: option.splits dest: fold_npmrc_line_keys)

lemma fold_npmrc_file_keys:
  "registryMap (fold (npmrc_file files) ps st) k = Some v \<Longrightarrow>
   registryMap st k \<noteq> None \<or> scope_key k"
proof (induction ps arbitrary: st v)
  case Nil
  then show ?case by simp
next
  case (Cons p ps)
  from Cons.IH [of "npmrc_file files p st" v] Cons.prems
  have "registryMap (npmrc_file files p st) k \<noteq> None \<or> scope_key k" by simp
  then show ?case using npmrc_file_keys by blast
qed

section \<open>Claims about parseNpmrc\<close>

text \<open>
  C1.  \<^verbatim>\<open>parseNpmrc\<close> receives the project-level path before the user-level path, as
  \<^verbatim>\<open>findNpmrcFiles\<close> returns them, and applies the user-level file first and the
  project-level file last.  When both files exist, a scope declared in the
  project-level file is mapped to the value of its last declaration there, whether the
  user-level file declares it or not; a scope declared in the user-level file alone is
  mapped to the value of its last declaration there; a scope that neither declares is
  not in the mapping.
\<close>

theorem parseNpmrc_project_overrides_user:
  assumes "files projectPath = Some projectText" and "files userPath = Some userText"
  shows "registryMap (snd (parseNpmrc files [projectPath, userPath])) scope =
           (case layer_value projectText scope of
              Some v \<Rightarrow> Some v
            | None \<Rightarrow> layer_value userText scope)"
  using assms
  by (simp add: parseNpmrc_def Let_def npmrc_file_def fold_npmrc_line_registryMap
      layer_value_def initial_npmrc_def)

lemmas example_npmrc_simps =
  example_files_def layer_value_def line_values_def line_defaults_def layer_defaults_def
  cleanLine_def js_trim_def js_whitespace_def js_line_terminator_def scopedMatch_def
  defaultMatch_def match_assignment_def List.map_filter_simps

theorem parseNpmrc_project_overrides_user_witness:
  "example_files ''/work/app/.npmrc'' = Some (''@a:registry = P1'' @ [CHR 0x0A] @ ''@b:registry=P2'') \<and>
   example_files ''/home/u/.npmrc'' =
     Some (''registry = R0 # the mirror'' @ [CHR 0x0A] @ ''@a:registry = U1'' @ [CHR 0x0A] @
       ''@c:registry = U3'') \<and>
   registryMap (snd (parseNpmrc example_files [''/work/app/.npmrc'', ''/home/u/.npmrc''])) ''@a'' =
     Some ''P1''"
  using parseNpmrc_project_overrides_user [of example_files "''/work/app/.npmrc''"
      "''@a:registry = P1'' @ [CHR 0x0A] @ ''@b:registry=P2''" "''/home/u/.npmrc''"
      "''registry = R0 # the mirror'' @ [CHR 0x0A] @ ''@a:registry = U1'' @ [CHR 0x0A] @
       ''@c:registry = U3''" "''@a''"]
  by (simp add: example_npmrc_simps)

text \<open>
  C8.  The default registry that \<^verbatim>\<open>parseNpmrc\<close> returns is
  \<^verbatim>\<open>https://registry.npmjs.org/\<close> when no file declares one, and otherwise the trimmed
  value of the last declaration in the order of application, which is the reverse of
  the order of the paths: the last declaration of the last-applied file that has one.
\<close>

theorem parseNpmrc_defaultRegistry:
  "defaultRegistry (snd (parseNpmrc files filePaths)) =
     (let declared = concat (map (layer_defaults files) (rev filePaths))
      in if declared = [] then ''https://registry.npmjs.org/'' else last declared)"
  unfolding parseNpmrc_def Let_def snd_conv fold_npmrc_file_defaultRegistry last_or_def
  by (simp only: initial_npmrc_def npmrc.select_convs)

theorem parseNpmrc_defaultRegistry_witness:
  "defaultRegistry (snd (parseNpmrc example_files [''/work/app/.npmrc'', ''/home/u/.npmrc''])) = ''R0'' \<and>
   defaultRegistry (snd (parseNpmrc example_files [''/work/app/.npmrc''])) =
     ''https://registry.npmjs.org/''"
  using parseNpmrc_defaultRegistry [of example_files "[''/work/app/.npmrc'', ''/home/u/.npmrc'']"]
    parseNpmrc_defaultRegistry [of example_files "[''/work/app/.npmrc'']"]
  by (simp add: example_npmrc_simps)

text \<open>
  C9, as the code has it.  Every key of the mapping that \<^verbatim>\<open>parseNpmrc\<close> returns starts
  with \<^verbatim>\<open>@\<close>, has at least two characters and contains no colon.
\<close>

theorem parseNpmrc_keys:
  assumes "registryMap (snd (parseNpmrc files filePaths)) k = Some v"
  shows "hd k = CHR ''@'' \<and> 2 \<le> length k \<and> CHR '':'' \<notin> set k"
proof -
  from assms have "registryMap initial_npmrc k \<noteq> None \<or> scope_key k"
    by (auto simp: parseNpmrc_def Let_def dest: fold_npmrc_file_keys)
  then show ?thesis by (simp add: initial_npmrc_def scope_key_def)
qed

theorem parseNpmrc_keys_witness:
  "registryMap (snd (parseNpmrc example_files [''/work/app/.npmrc'', ''/home/u/.npmrc''])) ''@b'' =
     Some ''P2'' \<and>
   hd ''@b'' = CHR ''@'' \<and> 2 \<le> length ''@b'' \<and> CHR '':'' \<notin> set ''@b''"
proof -
  have m: "registryMap (snd (parseNpmrc example_files [''/work/app/.npmrc'', ''/home/u/.npmrc''])) ''@b'' =
     Some ''P2''"
    by (simp add: parseNpmrc_def npmrc_file_def npmrc_line_def initial_npmrc_def
        example_npmrc_simps)
  from parseNpmrc_keys [OF m] m show ?thesis by simp
qed

text \<open>
  C9, as the claim has it, fails: the scope of the pattern stops at the first colon,
  not at a slash, so a key can contain a slash.
\<close>

theorem parseNpmrc_key_with_slash:
  "registryMap (snd (parseNpmrc [''/work/app/.npmrc'' \<mapsto> ''@a/b:registry = https://x/'']
       [''/work/app/.npmrc''])) ''@a/b'' = Some ''https://x/'' \<and>
   CHR ''/'' \<in> set ''@a/b''"
  by (simp add: parseNpmrc_def npmrc_file_def npmrc_line_def initial_npmrc_def
      example_npmrc_simps)

text \<open>
  C7.  The claim is that the sequence of paths is the same after the call.
  \<^verbatim>\<open>parseNpmrc\<close> leaves the caller's array reversed: given the project-level path and
  then the user-level path, it leaves the user-level path first.
\<close>

theorem parseNpmrc_reverses_its_argument:
  "fst (parseNpmrc example_files [''/work/app/.npmrc'', ''/home/u/.npmrc'']) =
     [''/home/u/.npmrc'', ''/work/app/.npmrc'']"
  by (simp add: parseNpmrc_def Let_def)

section \<open>Properties of the lockfile scanners\<close>

lemma scopeMatch_iff:
  "scopeMatch pkg = Some s \<longleftrightarrow>
     (\<exists>name rest. pkg = CHR ''@'' # name @ CHR ''/'' # rest \<and> name \<noteq> [] \<and>
        CHR ''/'' \<notin> set name \<and> s = CHR ''@'' # name)"
proof
  assume m: "scopeMatch pkg = Some s"
  then obtain c cs where pkg: "pkg = c # cs"
    by (cases pkg) (auto simp: scopeMatch_def)
  let ?name = "takeWhile (\<lambda>x. x \<noteq> CHR ''/'') cs"
  let ?rest = "dropWhile (\<lambda>x. x \<noteq> CHR ''/'') cs"
  from m pkg have c: "c = CHR ''@''" and name: "?name \<noteq> []" and rest: "?rest \<noteq> []"
    and s: "s = c # ?name"
    by (auto simp: scopeMatch_def Let_def split: if_splits)
  from rest have "hd ?rest = CHR ''/''"
    using hd_dropWhile [of "\<lambda>x. x \<noteq> CHR ''/''" cs] by simp
  with rest have "?rest = CHR ''/'' # tl ?rest"
    by (cases ?rest) auto
  then have "cs = ?name @ CHR ''/'' # tl ?rest"
    using takeWhile_dropWhile_id [of "\<lambda>x. x \<noteq> CHR ''/''" cs] by simp
  moreover have "CHR ''/'' \<notin> set ?name"
    by (auto dest: set_takeWhileD)
  ultimately show "\<exists>name rest. pkg = CHR ''@'' # name @ CHR ''/'' # rest \<and> name \<noteq> [] \<and>
      CHR ''/'' \<notin> set name \<and> s = CHR ''@'' # name"
    using pkg c name s by blast
next
  assume "\<exists>name rest. pkg = CHR ''@'' # name @ CHR ''/'' # rest \<and> name \<noteq> [] \<and>
      CHR ''/'' \<notin> set name \<and> s = CHR ''@'' # name"
  then obtain name rest where pkg: "pkg = CHR ''@'' # name @ CHR ''/'' # rest"
    and name: "name \<noteq> []" "CHR ''/'' \<notin> set name" and s: "s = CHR ''@'' # name"
    by blast
  from name(2) have all: "\<And>x. x \<in> set name \<Longrightarrow> x \<noteq> CHR ''/''"
    by auto
  have "takeWhile (\<lambda>x. x \<noteq> CHR ''/'') (name @ CHR ''/'' # rest) = name"
    using all by (simp add: takeWhile_append2)
  moreover have "dropWhile (\<lambda>x. x \<noteq> CHR ''/'') (name @ CHR ''/'' # rest) = CHR ''/'' # rest"
    using all by (simp add: dropWhile_append2)
  ultimately show "scopeMatch pkg = Some s"
    using pkg name(1) s by (simp add: scopeMatch_def)
qed

lemma scopeMatch_shape:
  assumes "scopeMatch pkg = Some s"
  shows "hd s = CHR ''@'' \<and> 2 \<le> length s \<and> CHR ''/'' \<notin> set s"
proof -
  from assms obtain name where "s = CHR ''@'' # name" "name \<noteq> []" "CHR ''/'' \<notin> set name"
    unfolding scopeMatch_iff by blast
  then show ?thesis by (cases name) auto
qed

lemma scopeMatch_hd: "scopeMatch pkg = Some s \<Longrightarrow> pkg \<noteq> [] \<and> hd pkg = CHR ''@''"
  unfolding scopeMatch_iff by auto

lemma is_digit_digit_char: "is_digit (digit_char d)"
  unfolding is_digit_def digit_char_def by (rule nth_mem) simp

lemma is_digit_not_at: "is_digit c \<Longrightarrow> c \<noteq> CHR ''@''"
  by (auto simp: is_digit_def)

lemma decimal_hd: "decimal n \<noteq> [] \<and> is_digit (hd (decimal n))"
proof (induction n rule: decimal.induct)
  case (1 n)
  show ?case
  proof (cases "n < 10")
    case True
    then show ?thesis
      by (subst (1 2) decimal.simps) (simp add: is_digit_digit_char)
  next
    case False
    with "1" show ?thesis
      by (subst (1 2) decimal.simps) simp
  qed
qed

lemma scopeMatch_decimal: "scopeMatch (decimal n) = None"
proof (cases "scopeMatch (decimal n)")
  case None
  then show ?thesis .
next
  case (Some s)
  then have "hd (decimal n) = CHR ''@''" by (simp add: scopeMatch_hd)
  with decimal_hd [of n] is_digit_not_at show ?thesis by metis
qed

lemma scopeMatch_array_index: "is_array_index k \<Longrightarrow> scopeMatch k = None"
proof (cases "scopeMatch k")
  case None
  then show ?thesis .
next
  case (Some s)
  assume "is_array_index k"
  then have "k \<noteq> []" and "list_all is_digit k"
    by (simp_all add: is_array_index_def)
  then have "is_digit (hd k)" by (cases k) auto
  moreover from Some have "hd k = CHR ''@''" by (simp add: scopeMatch_hd)
  ultimately show ?thesis using is_digit_not_at by metis
qed

lemma set_own_keys: "set (own_keys props) = set (map fst props)"
  by (auto simp: own_keys_def Let_def)

lemma filter_own_keys:
  assumes "\<And>k. P k \<Longrightarrow> \<not> is_array_index k"
  shows "filter P (own_keys props) = filter P (map fst props)"
proof -
  have "filter P (sort_key index_value (filter is_array_index (map fst props))) = []"
    using assms by (auto simp: filter_empty_conv)
  moreover have "filter P (filter (\<lambda>k. \<not> is_array_index k) (map fst props)) =
      filter P (map fst props)"
    using assms by (auto simp: filter_filter intro: filter_cong)
  ultimately show ?thesis by (simp add: own_keys_def Let_def)
qed

lemma object_keys_or_empty_object:
  "\<exists>keys. object_keys (or_empty_object v) = Inr keys"
  by (cases v) (auto simp: or_empty_object_def)

lemma filter_decimal_keys:
  assumes "set keys \<subseteq> range decimal" and "\<And>k. P k \<Longrightarrow> scoped k"
  shows "filter P keys = []"
proof -
  have "\<not> P k" if "k \<in> set keys" for k
  proof
    assume "P k"
    then have "scoped k" by (rule assms(2))
    moreover from that assms(1) obtain n where "k = decimal n" by blast
    ultimately show False by (simp add: scoped_def scopeMatch_decimal)
  qed
  then show ?thesis by (simp add: filter_empty_conv)
qed

lemma filter_object_keys:
  assumes "object_keys (or_empty_object (optional_packages lockData)) = Inr keys"
    and "\<And>k. P k \<Longrightarrow> scoped k"
  shows "filter P keys = filter P (document_keys lockData)"
proof (cases "optional_packages lockData")
  case (JObject pkgs)
  with assms(1) have "keys = own_keys pkgs" by (simp add: or_empty_object_def)
  moreover have "\<And>k. P k \<Longrightarrow> \<not> is_array_index k"
  proof
    fix k
    assume "P k" and "is_array_index k"
    then have "scoped k" and "scopeMatch k = None"
      using assms(2) scopeMatch_array_index by blast+
    then show False by (simp add: scoped_def)
  qed
  ultimately show ?thesis
    using JObject by (simp add: document_keys_def filter_own_keys)
next
  case (JString s)
  with assms(1) have "set keys \<subseteq> range decimal"
    by (auto simp: or_empty_object_def own_keys_def split: if_splits)
  then have "filter P keys = []"
    using assms(2) by (rule filter_decimal_keys)
  then show ?thesis using JString by (simp add: document_keys_def)
next
  case (JArray xs)
  with assms(1) have "set keys \<subseteq> range decimal"
    by (auto simp: or_empty_object_def)
  then have "filter P keys = []"
    using assms(2) by (rule filter_decimal_keys)
  then show ?thesis using JArray by (simp add: document_keys_def)
qed (use assms(1) in \<open>auto simp: or_empty_object_def own_keys_def document_keys_def
      split: if_splits\<close>)

subsection \<open>The loop of extractScopes\<close>

lemma set_set_add: "set (set_add x s) = insert x (set s)"
  by (auto simp: set_add_def)

lemma distinct_set_add: "distinct s \<Longrightarrow> distinct (set_add x s)"
  by (simp add: set_add_def)

lemma scopes_step_None: "scopeMatch k = None \<Longrightarrow> scopes_step k acc = acc"
  by (simp add: scopes_step_def)

lemma scopes_step_Some: "scopeMatch k = Some s \<Longrightarrow> scopes_step k acc = set_add s acc"
  by (simp add: scopes_step_def)

lemma set_fold_scopes_step:
  "set (fold scopes_step keys acc) = set acc \<union> {s. \<exists>k\<in>set keys. scopeMatch k = Some s}"
proof (induction keys arbitrary: acc)
  case Nil
  show ?case by simp
next
  case (Cons k keys)
  show ?case
  proof (cases "scopeMatch k")
    case None
    then show ?thesis
      by (auto simp: Cons.IH scopes_step_None)
  next
    case (Some s)
    then show ?thesis
      by (auto simp: Cons.IH scopes_step_Some set_set_add)
  qed
qed

lemma distinct_fold_scopes_step:
  "distinct acc \<Longrightarrow> distinct (fold scopes_step keys acc)"
proof (induction keys arbitrary: acc)
  case Nil
  then show ?case by simp
next
  case (Cons k keys)
  from Cons.prems have "distinct (scopes_step k acc)"
    by (cases "scopeMatch k") (simp_all add: scopes_step_None scopes_step_Some distinct_set_add)
  then show ?case by (simp add: Cons.IH)
qed

lemma fold_scopes_step_scoped:
  "fold scopes_step keys acc = fold scopes_step (filter scoped keys) acc"
proof (induction keys arbitrary: acc)
  case Nil
  show ?case by simp
next
  case (Cons k keys)
  show ?case
  proof (cases "scopeMatch k")
    case None
    then show ?thesis
      by (simp add: scoped_def scopes_step_None Cons.IH [of acc])
  next
    case (Some s)
    then show ?thesis
      by (simp add: scoped_def Cons.IH [of "scopes_step k acc"])
  qed
qed

lemma scopes_try_document:
  assumes "yaml_load text = Inr lockData"
  shows "scopes_try yaml_load text = Inr (fold scopes_step (document_keys lockData) [])"
proof -
  obtain keys where keys: "object_keys (or_empty_object (optional_packages lockData)) = Inr keys"
    using object_keys_or_empty_object by blast
  have "fold scopes_step keys [] = fold scopes_step (filter scoped keys) []"
    by (rule fold_scopes_step_scoped)
  also have "filter scoped keys = filter scoped (document_keys lockData)"
    using keys by (rule filter_object_keys)
  also have "fold scopes_step (filter scoped (document_keys lockData)) [] =
      fold scopes_step (document_keys lockData) []"
    by (rule fold_scopes_step_scoped [symmetric])
  finally show ?thesis
    using assms keys by (simp add: scopes_try_def)
qed

lemma extractScopes_eq:
  "extractScopes yaml_load files lockPath =
     (case files lockPath of
        None \<Rightarrow> Inl (LockfileNotFound lockPath)
      | Some text \<Rightarrow>
          (case yaml_load text of
             Inl message \<Rightarrow> Inl (LockfileParseError message)
           | Inr lockData \<Rightarrow> Inr (fold scopes_step (document_keys lockData) [])))"
proof (cases "files lockPath")
  case None
  then show ?thesis by (simp add: extractScopes_def)
next
  case (Some content)
  show ?thesis
  proof (cases "yaml_load content")
    case (Inl message)
    with Some show ?thesis by (simp add: extractScopes_def scopes_try_def)
  next
    case (Inr lockData)
    with Some show ?thesis by (simp add: extractScopes_def scopes_try_document)
  qed
qed

lemma extractScopes_matched:
  assumes "extractScopes yaml_load files lockPath = Inr scopes" and "s \<in> set scopes"
  shows "\<exists>pkg. scopeMatch pkg = Some s"
proof -
  from assms(1) obtain keys where "scopes = fold scopes_step keys []"
    by (auto simp: extractScopes_eq split: option.splits sum.splits)
  with assms(2) show ?thesis
    by (auto simp: set_fold_scopes_step)
qed

lemma distinct_singleton:
  assumes "distinct xs" and "set xs = {x}"
  shows "xs = [x]"
proof (cases xs)
  case Nil
  with assms(2) show ?thesis by simp
next
  case (Cons y ys)
  with assms have "y = x" and "set ys \<subseteq> {x}" and "y \<notin> set ys" by auto
  then have "ys = []" by (cases ys) auto
  with \<open>y = x\<close> Cons show ?thesis by simp
qed

subsection \<open>The loop of extractPackagesByRegistry\<close>

lemma classified_scoped: "classified regMap defaultReg R pkg \<Longrightarrow> scoped pkg"
  by (auto simp: classified_def scoped_def split: option.splits)

lemma classified_unique:
  "classified regMap defaultReg R pkg \<Longrightarrow> classified regMap defaultReg R' pkg \<Longrightarrow> R = R'"
  by (auto simp: classified_def split: option.splits)

lemma packages_step_unclassified:
  assumes "\<And>R. \<not> classified regMap defaultReg R pkg"
  shows "packages_step regMap defaultReg pkg acc = Inr acc"
proof (cases "scopeMatch pkg")
  case None
  then show ?thesis by (simp add: packages_step_def)
next
  case scope: (Some scope)
  show ?thesis
  proof (cases "regMap scope")
    case None
    with scope show ?thesis by (simp add: packages_step_def)
  next
    case (Some registry)
    with scope assms [of registry] have "registry = [] \<or> registry = defaultReg"
      by (simp add: classified_def)
    with scope Some show ?thesis by (auto simp: packages_step_def)
  qed
qed

lemma packages_step_classified:
  assumes "classified regMap defaultReg R pkg" and "R \<notin> set object_prototype_names"
  shows "packages_step regMap defaultReg pkg acc =
           Inr (acc(R \<mapsto> (case acc R of None \<Rightarrow> [] | Some l \<Rightarrow> l) @ [pkg]))"
  using assms
  by (auto simp: packages_step_def classified_def get_property_def Let_def
      split: option.splits)

lemma packages_step_inherited:
  assumes "classified regMap defaultReg R pkg" and "R \<in> set object_prototype_names"
    and "acc R = None"
  shows "packages_step regMap defaultReg pkg acc =
           Inl ''packagesByRegistry[registry].push is not a function''"
  using assms
  by (auto simp: packages_step_def classified_def get_property_def Let_def
      split: option.splits)

lemma packages_loop_lists:
  assumes "\<not> pushes_to_prototype regMap defaultReg keys"
  shows "packages_loop regMap defaultReg keys acc =
           Inr (\<lambda>R. if filter (classified regMap defaultReg R) keys = [] then acc R
                    else Some ((case acc R of None \<Rightarrow> [] | Some l \<Rightarrow> l) @
                               filter (classified regMap defaultReg R) keys))"
  using assms
proof (induction keys arbitrary: acc)
  case Nil
  show ?case by simp
next
  case (Cons pkg keys)
  from Cons.prems have rest: "\<not> pushes_to_prototype regMap defaultReg keys"
    and here: "\<And>R. classified regMap defaultReg R pkg \<Longrightarrow> R \<notin> set object_prototype_names"
    by (auto simp: pushes_to_prototype_def list_ex_iff)
  show ?case
  proof (cases "\<exists>R. classified regMap defaultReg R pkg")
    case False
    then have "packages_step regMap defaultReg pkg acc = Inr acc"
      by (intro packages_step_unclassified) blast
    with False show ?thesis
      by (simp add: Cons.IH [OF rest] cong: if_cong)
  next
    case True
    then obtain R0 where R0: "classified regMap defaultReg R0 pkg" by blast
    then have other: "\<And>R. R \<noteq> R0 \<Longrightarrow> \<not> classified regMap defaultReg R pkg"
      using classified_unique by blast
    from R0 here have
      "packages_step regMap defaultReg pkg acc =
         Inr (acc(R0 \<mapsto> (case acc R0 of None \<Rightarrow> [] | Some l \<Rightarrow> l) @ [pkg]))"
      by (intro packages_step_classified) auto
    then show ?thesis
      using R0 other by (auto simp: Cons.IH [OF rest] fun_eq_iff)
  qed
qed

lemma packages_loop_inherited:
  assumes "pushes_to_prototype regMap defaultReg keys"
    and "\<And>R. R \<in> set object_prototype_names \<Longrightarrow> acc R = None"
  shows "packages_loop regMap defaultReg keys acc =
           Inl ''packagesByRegistry[registry].push is not a function''"
  using assms
proof (induction keys arbitrary: acc)
  case Nil
  then show ?case by (simp add: pushes_to_prototype_def)
next
  case (Cons pkg keys)
  show ?case
  proof (cases "\<exists>R. classified regMap defaultReg R pkg")
    case False
    then have step: "packages_step regMap defaultReg pkg acc = Inr acc"
      by (intro packages_step_unclassified) blast
    from False Cons.prems(1) have "pushes_to_prototype regMap defaultReg keys"
      by (auto simp: pushes_to_prototype_def list_ex_iff)
    then show ?thesis
      using step Cons.prems(2) by (simp add: Cons.IH)
  next
    case True
    then obtain R0 where R0: "classified regMap defaultReg R0 pkg" by blast
    show ?thesis
    proof (cases "R0 \<in> set object_prototype_names")
      case True
      with R0 Cons.prems(2) show ?thesis
        by (simp add: packages_step_inherited)
    next
      case False
      with R0 have step: "packages_step regMap defaultReg pkg acc =
          Inr (acc(R0 \<mapsto> (case acc R0 of None \<Rightarrow> [] | Some l \<Rightarrow> l) @ [pkg]))"
        by (intro packages_step_classified)
      from R0 False have "\<And>R. R \<in> set object_prototype_names \<Longrightarrow>
          \<not> classified regMap defaultReg R pkg"
        using classified_unique by blast
      with Cons.prems(1) have rest: "pushes_to_prototype regMap defaultReg keys"
        by (auto simp: pushes_to_prototype_def list_ex_iff)
      have "\<And>R. R \<in> set object_prototype_names \<Longrightarrow>
          (acc(R0 \<mapsto> (case acc R0 of None \<Rightarrow> [] | Some l \<Rightarrow> l) @ [pkg])) R = None"
        using False Cons.prems(2) by auto
      with rest step show ?thesis
        by (simp add: Cons.IH)
    qed
  qed
qed

lemma pushes_to_prototype_filter:
  "pushes_to_prototype regMap defaultReg keys \<longleftrightarrow>
     filter (\<lambda>pkg. list_ex (\<lambda>R. classified regMap defaultReg R pkg) object_prototype_names)
       keys \<noteq> []"
  by (auto simp: pushes_to_prototype_def list_ex_iff filter_empty_conv)

lemma pushes_to_prototype_document:
  assumes "object_keys (or_empty_object (optional_packages lockData)) = Inr keys"
  shows "pushes_to_prototype regMap defaultReg keys \<longleftrightarrow>
         pushes_to_prototype regMap defaultReg (document_keys lockData)"
proof -
  have "filter (\<lambda>pkg. list_ex (\<lambda>R. classified regMap defaultReg R pkg) object_prototype_names)
          keys =
        filter (\<lambda>pkg. list_ex (\<lambda>R. classified regMap defaultReg R pkg) object_prototype_names)
          (document_keys lockData)"
    using assms
    by (rule filter_object_keys) (auto simp: list_ex_iff dest: classified_scoped)
  then show ?thesis by (simp add: pushes_to_prototype_filter)
qed

lemma packages_try_document:
  assumes "yaml_load text = Inr lockData"
    and "\<not> pushes_to_prototype regMap defaultReg (document_keys lockData)"
  shows "packages_try yaml_load text regMap defaultReg =
           Inr (\<lambda>R. let listed = filter (classified regMap defaultReg R) (document_keys lockData)
                    in if listed = [] then None else Some listed)"
proof -
  obtain keys where keys: "object_keys (or_empty_object (optional_packages lockData)) = Inr keys"
    using object_keys_or_empty_object by blast
  have same: "filter (classified regMap defaultReg R) keys =
      filter (classified regMap defaultReg R) (document_keys lockData)" for R
    using keys by (rule filter_object_keys) (rule classified_scoped)
  from assms(2) keys have "\<not> pushes_to_prototype regMap defaultReg keys"
    by (simp add: pushes_to_prototype_document)
  then have "packages_loop regMap defaultReg keys Map.empty =
      Inr (\<lambda>R. if filter (classified regMap defaultReg R) keys = [] then None
               else Some (filter (classified regMap defaultReg R) keys))"
    by (simp add: packages_loop_lists cong: if_cong)
  then show ?thesis
    using assms(1) keys by (simp add: packages_try_def same Let_def cong: if_cong)
qed

lemma packages_try_inherited:
  assumes "yaml_load text = Inr lockData"
    and "pushes_to_prototype regMap defaultReg (document_keys lockData)"
  shows "packages_try yaml_load text regMap defaultReg =
           Inl ''packagesByRegistry[registry].push is not a function''"
proof -
  obtain keys where keys: "object_keys (or_empty_object (optional_packages lockData)) = Inr keys"
    using object_keys_or_empty_object by blast
  from assms(2) keys have "pushes_to_prototype regMap defaultReg keys"
    by (simp add: pushes_to_prototype_document)
  then have "packages_loop regMap defaultReg keys Map.empty =
      Inl ''packagesByRegistry[registry].push is not a function''"
    by (rule packages_loop_inherited) simp
  then show ?thesis
    using assms(1) keys by (simp add: packages_try_def)
qed

text \<open>
  What \<^verbatim>\<open>extractPackagesByRegistry\<close> does on every input: the four outcomes.
\<close>

lemma extractPackagesByRegistry_eq:
  "extractPackagesByRegistry yaml_load files lockPath regMap defaultReg =
     (case files lockPath of
        None \<Rightarrow> Inl (LockfileNotFound lockPath)
      | Some text \<Rightarrow>
          (case yaml_load text of
             Inl message \<Rightarrow> Inl (LockfileParseError message)
           | Inr lockData \<Rightarrow>
               if pushes_to_prototype regMap defaultReg (document_keys lockData)
               then Inl (LockfileParseError
                           ''packagesByRegistry[registry].push is not a function'')
               else Inr (\<lambda>R. let listed = filter (classified regMap defaultReg R)
                                             (document_keys lockData)
                              in if listed = [] then None else Some listed)))"
proof (cases "files lockPath")
  case None
  then show ?thesis by (simp add: extractPackagesByRegistry_def)
next
  case (Some content)
  show ?thesis
  proof (cases "yaml_load content")
    case (Inl message)
    with Some show ?thesis
      by (simp add: extractPackagesByRegistry_def packages_try_def)
  next
    case (Inr lockData)
    with Some show ?thesis
      by (simp add: extractPackagesByRegistry_def packages_try_document
          packages_try_inherited)
  qed
qed

section \<open>Claims about the lockfile scanners\<close>

lemmas example_lockfile_simps =
  example_files_def example_yaml_load_def example_lockfile_def example_document_def
  example_list_lockfile_def example_list_document_def document_keys_def

text \<open>
  C3.  On a lockfile whose \<^verbatim>\<open>packages\<close> mapping has exactly the keys \<^verbatim>\<open>@foo/bar\<close>,
  \<^verbatim>\<open>baz\<close> and \<^verbatim>\<open>@foo/qux\<close>, in any order and with any values, \<^verbatim>\<open>extractScopes\<close>
  returns the set whose only element is \<^verbatim>\<open>@foo\<close>: the two scoped keys give the same
  scope, which the set holds once, and \<^verbatim>\<open>baz\<close> gives none.
\<close>

theorem extractScopes_foo:
  assumes "files lockPath = Some content"
    and "yaml_load content = Inr (JObject props)"
    and "map_of props ''packages'' = Some (JObject pkgs)"
    and "set (map fst pkgs) = {''@foo/bar'', ''baz'', ''@foo/qux''}"
  shows "extractScopes yaml_load files lockPath = Inr [''@foo''] \<and>
         scopeMatch ''@foo/bar'' = Some ''@foo'' \<and> scopeMatch ''baz'' = None \<and>
         scopeMatch ''@foo/qux'' = Some ''@foo''"
proof -
  have m: "scopeMatch ''@foo/bar'' = Some ''@foo''" "scopeMatch ''baz'' = None"
    "scopeMatch ''@foo/qux'' = Some ''@foo''"
    by (simp_all add: scopeMatch_def)
  have keys: "document_keys (JObject props) = map fst pkgs"
    using assms(3) by (simp add: document_keys_def)
  let ?scopes = "fold scopes_step (map fst pkgs) []"
  have "set ?scopes = {s. \<exists>k\<in>{''@foo/bar'', ''baz'', ''@foo/qux''}. scopeMatch k = Some s}"
    unfolding set_fold_scopes_step assms(4) by simp
  also have "\<dots> = {''@foo''}"
    using m by auto
  finally have "set ?scopes = {''@foo''}" .
  moreover have "distinct ?scopes"
    by (rule distinct_fold_scopes_step) simp
  ultimately have "?scopes = [''@foo'']"
    by (rule distinct_singleton [rotated])
  then have "extractScopes yaml_load files lockPath = Inr [''@foo'']"
    using assms(1,2) keys by (simp add: extractScopes_eq)
  with m show ?thesis by simp
qed

theorem extractScopes_foo_witness:
  "extractScopes example_yaml_load example_files ''/work/app/pnpm-lock.yaml'' = Inr [''@foo'']"
proof -
  have "extractScopes example_yaml_load example_files ''/work/app/pnpm-lock.yaml'' = Inr [''@foo''] \<and>
         scopeMatch ''@foo/bar'' = Some ''@foo'' \<and> scopeMatch ''baz'' = None \<and>
         scopeMatch ''@foo/qux'' = Some ''@foo''"
  proof (rule extractScopes_foo)
    show "example_files ''/work/app/pnpm-lock.yaml'' = Some example_lockfile"
      by (simp add: example_files_def)
    show "example_yaml_load example_lockfile =
        Inr (JObject [(''packages'',
          JObject [(''@foo/bar'', JObject []), (''baz'', JObject []), (''@foo/qux'', JObject [])])])"
      by (simp add: example_yaml_load_def example_document_def)
    show "map_of [(''packages'',
          JObject [(''@foo/bar'', JObject []), (''baz'', JObject []), (''@foo/qux'', JObject [])])]
        ''packages'' =
        Some (JObject [(''@foo/bar'', JObject []), (''baz'', JObject []), (''@foo/qux'', JObject [])])"
      by simp
    show "set (map fst [(''@foo/bar'', JObject []), (''baz'', JObject []), (''@foo/qux'', JObject [])]) =
        {''@foo/bar'', ''baz'', ''@foo/qux''}"
      by simp
  qed
  then show ?thesis by simp
qed

text \<open>
  C10.  Every element of the set that \<^verbatim>\<open>extractScopes\<close> returns starts with \<^verbatim>\<open>@\<close>, has
  at least two characters and contains no slash; so no string with a slash, a key of
  the registry mapping or not, is among them.
\<close>

theorem extractScopes_elements:
  assumes "extractScopes yaml_load files lockPath = Inr scopes"
  shows "(\<forall>s\<in>set scopes. hd s = CHR ''@'' \<and> 2 \<le> length s \<and> CHR ''/'' \<notin> set s) \<and>
         (\<forall>k. CHR ''/'' \<in> set k \<longrightarrow> k \<notin> set scopes)"
proof -
  have shape: "hd s = CHR ''@'' \<and> 2 \<le> length s \<and> CHR ''/'' \<notin> set s" if "s \<in> set scopes" for s
  proof -
    from assms that obtain pkg where "scopeMatch pkg = Some s"
      using extractScopes_matched by blast
    then show ?thesis by (rule scopeMatch_shape)
  qed
  then show ?thesis by blast
qed

theorem extractScopes_elements_witness:
  "extractScopes example_yaml_load example_files ''/work/app/pnpm-lock.yaml'' = Inr [''@foo''] \<and>
   hd ''@foo'' = CHR ''@'' \<and> 2 \<le> length ''@foo'' \<and> CHR ''/'' \<notin> set ''@foo'' \<and>
   ''@foo/bar'' \<notin> set [''@foo'']"
proof -
  have r: "extractScopes example_yaml_load example_files ''/work/app/pnpm-lock.yaml'' = Inr [''@foo'']"
    by (simp add: extractScopes_eq example_lockfile_simps scopes_step_def set_add_def
        scopeMatch_def)
  from extractScopes_elements [where files = example_files and yaml_load = example_yaml_load
      and lockPath = "''/work/app/pnpm-lock.yaml''", OF r] r
  show ?thesis by simp
qed

text \<open>
  C5.  When the document is a mapping whose \<^verbatim>\<open>packages\<close> value is present and is not a
  mapping, \<^verbatim>\<open>extractScopes\<close> returns the empty set and \<^verbatim>\<open>extractPackagesByRegistry\<close>
  returns the empty object; neither throws.
\<close>

theorem packages_not_a_mapping:
  assumes "files lockPath = Some content"
    and "yaml_load content = Inr (JObject props)"
    and "map_of props ''packages'' = Some v"
    and "\<forall>pkgs. v \<noteq> JObject pkgs"
  shows "extractScopes yaml_load files lockPath = Inr [] \<and>
         extractPackagesByRegistry yaml_load files lockPath regMap defaultReg = Inr Map.empty"
proof -
  have "document_keys (JObject props) = []"
    using assms(3,4) by (cases v) (simp_all add: document_keys_def)
  then show ?thesis
    using assms(1,2)
    by (simp add: extractScopes_eq extractPackagesByRegistry_eq pushes_to_prototype_def)
qed

theorem packages_not_a_mapping_witness:
  "example_files ''/work/lib/pnpm-lock.yaml'' = Some example_list_lockfile \<and>
   example_yaml_load example_list_lockfile =
     Inr (JObject [(''packages'', JArray [JString ''@foo/bar'', JString ''baz''])]) \<and>
   extractScopes example_yaml_load example_files ''/work/lib/pnpm-lock.yaml'' = Inr [] \<and>
   extractPackagesByRegistry example_yaml_load example_files ''/work/lib/pnpm-lock.yaml''
     [''@foo'' \<mapsto> ''https://custom.example/''] ''https://registry.npmjs.org/'' = Inr Map.empty"
proof -
  have f: "example_files ''/work/lib/pnpm-lock.yaml'' = Some example_list_lockfile"
    by (simp add: example_files_def)
  have l: "example_yaml_load example_list_lockfile =
     Inr (JObject [(''packages'', JArray [JString ''@foo/bar'', JString ''baz''])])"
    by (simp add: example_yaml_load_def example_list_document_def example_lockfile_def
        example_list_lockfile_def)
  have p: "map_of [(''packages'', JArray [JString ''@foo/bar'', JString ''baz''])] ''packages'' =
      Some (JArray [JString ''@foo/bar'', JString ''baz''])"
    by simp
  have n: "\<forall>pkgs. JArray [JString ''@foo/bar'', JString ''baz''] \<noteq> JObject pkgs"
    by simp
  from packages_not_a_mapping [where files = example_files and yaml_load = example_yaml_load
      and lockPath = "''/work/lib/pnpm-lock.yaml''"
      and regMap = "[''@foo'' \<mapsto> ''https://custom.example/'']"
      and defaultReg = "''https://registry.npmjs.org/''", OF f l p n] f l
  show ?thesis by simp
qed

text \<open>
  C2, as the code has it.  When no package key is classified under a name that
  \<^verbatim>\<open>Object.prototype\<close> has, \<^verbatim>\<open>extractPackagesByRegistry\<close> returns an object in which the
  list of a registry \<open>R\<close> holds, in the order of the document, the package keys that
  have a scope which the mapping sends to \<open>R\<close>, where \<open>R\<close> is not the empty string and
  is not the default registry; a registry with no such key has no list.
\<close>

theorem extractPackagesByRegistry_lists:
  assumes "files lockPath = Some content"
    and "yaml_load content = Inr lockData"
    and "\<not> pushes_to_prototype regMap defaultReg (document_keys lockData)"
  shows "extractPackagesByRegistry yaml_load files lockPath regMap defaultReg =
           Inr (\<lambda>R. let listed = filter (classified regMap defaultReg R) (document_keys lockData)
                    in if listed = [] then None else Some listed)"
  using assms by (simp add: extractPackagesByRegistry_eq)

theorem extractPackagesByRegistry_lists_witness:
  "example_files ''/work/app/pnpm-lock.yaml'' = Some example_lockfile \<and>
   example_yaml_load example_lockfile = Inr example_document \<and>
   map_sum id (\<lambda>r. r ''https://custom.example/'')
     (extractPackagesByRegistry example_yaml_load example_files ''/work/app/pnpm-lock.yaml''
        [''@foo'' \<mapsto> ''https://custom.example/''] ''https://registry.npmjs.org/'') =
     Inr (Some [''@foo/bar'', ''@foo/qux''])"
proof -
  have f: "example_files ''/work/app/pnpm-lock.yaml'' = Some example_lockfile"
    by (simp add: example_files_def)
  have l: "example_yaml_load example_lockfile = Inr example_document"
    by (simp add: example_yaml_load_def)
  have n: "\<not> pushes_to_prototype [''@foo'' \<mapsto> ''https://custom.example/'']
      ''https://registry.npmjs.org/'' (document_keys example_document)"
    by (simp add: pushes_to_prototype_def classified_def scopeMatch_def
        object_prototype_names_def example_lockfile_simps)
  from extractPackagesByRegistry_lists [where files = example_files
      and yaml_load = example_yaml_load and lockPath = "''/work/app/pnpm-lock.yaml''", OF f l n] f l
  show ?thesis
    by (simp add: classified_def scopeMatch_def example_lockfile_simps)
qed

text \<open>
  C2, as the claim has it, fails: a scope mapped to the empty string, which differs
  from the default registry, gets no list, because the empty string is falsy.
\<close>

theorem extractPackagesByRegistry_empty_registry:
  "''@foo/bar'' \<in> set (document_keys example_document) \<and>
   scopeMatch ''@foo/bar'' = Some ''@foo'' \<and>
   [''@foo'' \<mapsto> ''''] ''@foo'' = Some '''' \<and>
   '''' \<noteq> ''https://registry.npmjs.org/'' \<and>
   extractPackagesByRegistry example_yaml_load example_files ''/work/app/pnpm-lock.yaml''
     [''@foo'' \<mapsto> ''''] ''https://registry.npmjs.org/'' = Inr Map.empty"
  by (simp add: extractPackagesByRegistry_def packages_try_def packages_step_def
      or_empty_object_def own_keys_def is_array_index_def is_digit_def scopeMatch_def
      example_lockfile_simps)

text \<open>
  C4.  The claim is that \<^verbatim>\<open>extractPackagesByRegistry\<close> fails with the parse error only
  when the content of the file cannot be parsed.  Here the file exists and js-yaml
  loads it, and the function still fails with the parse error: the registry of \<^verbatim>\<open>@foo\<close>
  is \<^verbatim>\<open>constructor\<close>, which the result object inherits, so no list is created and
  \<^verbatim>\<open>push\<close> is not a function.
\<close>

theorem extractPackagesByRegistry_inherited_name:
  "example_files ''/work/app/pnpm-lock.yaml'' = Some example_lockfile \<and>
   example_yaml_load example_lockfile = Inr example_document \<and>
   extractPackagesByRegistry example_yaml_load example_files ''/work/app/pnpm-lock.yaml''
     [''@foo'' \<mapsto> ''constructor''] ''https://registry.npmjs.org/'' =
     Inl (LockfileParseError ''packagesByRegistry[registry].push is not a function'')"
  by (simp add: extractPackagesByRegistry_def packages_try_def packages_step_def
      get_property_def object_prototype_names_def
      or_empty_object_def own_keys_def is_array_index_def is_digit_def scopeMatch_def
      example_lockfile_simps)

text \<open>
  \<^verbatim>\<open>extractScopes\<close> has no such path: it fails with the first error exactly when the
  path does not exist, and with the second exactly when the file exists and js-yaml
  throws on its content.
\<close>

lemma extractScopes_failures:
  "(\<exists>p. extractScopes yaml_load files lockPath = Inl (LockfileNotFound p)) \<longleftrightarrow>
     files lockPath = None"
  "(\<exists>m. extractScopes yaml_load files lockPath = Inl (LockfileParseError m)) \<longleftrightarrow>
     (\<exists>content m. files lockPath = Some content \<and> yaml_load content = Inl m)"
  by (auto simp: extractScopes_eq split: option.splits sum.splits)

section \<open>Claims about findNpmrcFiles\<close>

text \<open>
  C6, as the code has it.  Given a lockfile path, \<^verbatim>\<open>findNpmrcFiles\<close> returns the
  project-level path, when that file exists, and after it the user-level path, when
  that file exists; a candidate that does not exist is left out.
\<close>

theorem findNpmrcFiles_order:
  assumes "p \<noteq> []"
  shows "findNpmrcFiles os files (Some p) =
           (if existsSync files (path_join os (path_dirname os p) ''.npmrc'')
            then [path_join os (path_dirname os p) ''.npmrc''] else []) @
           (if existsSync files (path_join os (homedir os) ''.npmrc'')
            then [path_join os (homedir os) ''.npmrc''] else [])"
  using assms by (simp add: findNpmrcFiles_def Let_def)

theorem findNpmrcFiles_order_witness:
  "''/work/lib/pnpm-lock.yaml'' \<noteq> [] \<and>
   findNpmrcFiles example_platform example_files (Some ''/work/lib/pnpm-lock.yaml'') =
     [''/home/u/.npmrc'']"
proof -
  have n: "''/work/lib/pnpm-lock.yaml'' \<noteq> []" by simp
  from findNpmrcFiles_order [OF n, of example_platform example_files] show ?thesis
    by (simp add: example_platform_def example_files_def existsSync_def)
qed

text \<open>
  C6, as the claim has it, fails: with both files present the project-level path comes
  first and the user-level path second.
\<close>

theorem findNpmrcFiles_project_first:
  "existsSync example_files ''/home/u/.npmrc'' \<and>
   existsSync example_files ''/work/app/.npmrc'' \<and>
   findNpmrcFiles example_platform example_files (Some ''/work/app/pnpm-lock.yaml'') =
     [''/work/app/.npmrc'', ''/home/u/.npmrc''] \<and>
   findNpmrcFiles example_platform example_files (Some ''/work/app/pnpm-lock.yaml'') \<noteq>
     [''/home/u/.npmrc'', ''/work/app/.npmrc'']"
  by (simp add: findNpmrcFiles_def example_platform_def example_files_def existsSync_def)

section \<open>The whole pipeline on an example\<close>

text \<open>
  The steps of \<^verbatim>\<open>main\<close> on the second file system: the default registry is \<^verbatim>\<open>R0\<close>, the
  mapping sends \<^verbatim>\<open>@a\<close> to \<^verbatim>\<open>R1\<close> and \<^verbatim>\<open>@b\<close> to \<^verbatim>\<open>R0\<close>, and \<^verbatim>\<open>@a/x\<close> is the only package
  listed, under \<^verbatim>\<open>R1\<close>.
\<close>

lemmas scenario_simps =
  scenario_files_def scenario_yaml_load_def scenario_lockfile_def example_platform_def
  existsSync_def findNpmrcFiles_def parseNpmrc_def npmrc_file_def npmrc_line_def
  initial_npmrc_def js_trim_def js_whitespace_def js_line_terminator_def scopedMatch_def
  defaultMatch_def match_assignment_def scopeMatch_def

lemma scenario_files_found:
  "findNpmrcFiles example_platform scenario_files (Some ''/work/app/pnpm-lock.yaml'') =
     [''/work/app/.npmrc'', ''/home/u/.npmrc'']"
  by (simp add: scenario_simps)

lemma scenario_config:
  "defaultRegistry (snd (parseNpmrc scenario_files [''/work/app/.npmrc'', ''/home/u/.npmrc''])) = ''R0''"
  "registryMap (snd (parseNpmrc scenario_files [''/work/app/.npmrc'', ''/home/u/.npmrc''])) =
     [''@a'' \<mapsto> ''R1'', ''@b'' \<mapsto> ''R0'']"
  by (simp_all add: scenario_simps)

lemma scenario_scopes:
  "extractScopes scenario_yaml_load scenario_files ''/work/app/pnpm-lock.yaml'' =
     Inr [''@a'', ''@b'']"
  by (simp add: extractScopes_eq document_keys_def scopes_step_def set_add_def scenario_simps)

lemma scenario_packages:
  "extractPackagesByRegistry scenario_yaml_load scenario_files ''/work/app/pnpm-lock.yaml''
     [''@a'' \<mapsto> ''R1'', ''@b'' \<mapsto> ''R0''] ''R0'' = Inr [''R1'' \<mapsto> [''@a/x'']]"
  by (simp add: extractPackagesByRegistry_def packages_try_def packages_step_def
      get_property_def object_prototype_names_def or_empty_object_def own_keys_def
      is_array_index_def is_digit_def scenario_simps)

text \<open>A line that is a comment as a whole changes nothing.\<close>

lemma npmrc_line_comment: "npmrc_line ''# @foo:registry = https://x/'' st = st"
  by (simp add: npmrc_line_def js_trim_def js_whitespace_def)

text \<open>
  A scoped declaration whose value is only a comment maps the scope to the empty
  string.
\<close>

lemma parseNpmrc_empty_value:
  "registryMap (snd (parseNpmrc [''/work/app/.npmrc'' \<mapsto> ''@foo:registry = # none'']
       [''/work/app/.npmrc''])) ''@foo'' = Some ''''"
  by (simp add: scenario_simps)

text \<open>A scoped declaration can name a property of \<^verbatim>\<open>Object.prototype\<close> as its registry.\<close>

lemma parseNpmrc_inherited_value:
  "registryMap (snd (parseNpmrc [''/work/app/.npmrc'' \<mapsto> ''@foo:registry = constructor'']
       [''/work/app/.npmrc''])) = [''@foo'' \<mapsto> ''constructor'']"
  by (simp add: scenario_simps)

end
